theory Spec2Isabelle
  imports Complex_Main "HOL-Library.Word" "HOL-Library.Multiset" "HOL-Library.AList"
    "HOL-Library.Log_Nat"
begin

section \<open>Preprocessing pipeline of the optimization detector (src/preprocess.py)\<close>

text \<open>
  The module reads the sample files of one category, encodes them as byte strings,
  splits them into a training and a test part and adds them to two dataset stores.
  Python exceptions are values of \<open>error\<close>; a computation that may raise returns
  \<open>error + 'a\<close> with \<open>Inl\<close> for the exception. A computation that may run forever
  returns an \<open>option\<close>, \<open>None\<close> standing for "does not return".
\<close>

datatype error = TypeError | ValueError | FileNotFoundError | OverflowError

type_synonym byte = "8 word"
type_synonym bytes = "byte list"

subsection \<open>Paths (posixpath)\<close>

text \<open>\<^verbatim>\<open>os.path.join(a, b)\<close>: an absolute \<open>b\<close> replaces \<open>a\<close>; otherwise the two
  are joined with one separator, unless \<open>a\<close> is empty or already ends with it.\<close>

definition os_path_join :: "string \<Rightarrow> string \<Rightarrow> string" where
  "os_path_join a b =
     (if b \<noteq> [] \<and> hd b = CHR ''/'' then b
      else if a = [] \<or> last a = CHR ''/'' then a @ b
      else a @ ''/'' @ b)"

text \<open>\<^verbatim>\<open>str.rfind\<close> of a single character: the last index, or -1.\<close>

definition rfind :: "char \<Rightarrow> string \<Rightarrow> int" where
  "rfind c s =
     (if c \<in> set s
      then int (length s) - 1 - int (length (takeWhile (\<lambda>x. x \<noteq> c) (rev s)))
      else - 1)"

text \<open>\<^verbatim>\<open>os.path.splitext(p)[1]\<close>: the text from the last dot of the last path
  component on, provided that some character other than a dot precedes it in that
  component; the empty string otherwise.\<close>

definition splitext_ext :: "string \<Rightarrow> string" where
  "splitext_ext p =
     (let sepIndex = rfind (CHR ''/'') p;
          dotIndex = rfind (CHR ''.'') p
      in if dotIndex > sepIndex
         then (if list_ex (\<lambda>ch. ch \<noteq> CHR ''.'')
                     (take (nat (dotIndex - (sepIndex + 1))) (drop (nat (sepIndex + 1)) p))
               then drop (nat dotIndex) p
               else [])
         else [])"

subsection \<open>gather_files\<close>

text \<open>
  \<^verbatim>\<open>os.walk(path)\<close> yields one triple (dirpath, dirnames, filenames) per directory
  visited; the sequence it yields is the parameter \<open>walk\<close> of the model. The loop
  variable of the outer loop is again called \<open>files\<close>, so each triple rebinds
  \<open>files\<close> to the file names of that directory, and the inner loop iterates over
  that very list while appending to it. A Python list iterator holds an index and
  stops when the index reaches the current length of the list: \<open>gather_inner\<close> is
  that loop, with the index \<open>i\<close> and the list as its state.
\<close>

type_synonym walk_entry = "string \<times> string list \<times> string list"

partial_function (option) gather_inner ::
  "string \<Rightarrow> nat \<Rightarrow> string list \<Rightarrow> string list option" where
  "gather_inner path i files =
     (if i < length files
      then gather_inner path (Suc i) (files @ [os_path_join path (files ! i)])
      else Some files)"

fun gather_outer :: "string \<Rightarrow> walk_entry list \<Rightarrow> string list \<Rightarrow> string list option" where
  "gather_outer path [] files = Some files"
| "gather_outer path ((dirpath, dirnames, filenames) # rest) files =
     (case gather_inner path 0 filenames of
        None \<Rightarrow> None
      | Some files' \<Rightarrow> gather_outer path rest files')"

definition gather_files ::
  "walk_entry list \<Rightarrow> string \<Rightarrow> bool \<Rightarrow> (error + string list) option" where
  "gather_files walk path function =
     (case gather_outer path walk [] of
        None \<Rightarrow> None
      | Some files \<Rightarrow>
          (let ext = (if function then ''.txt'' else ''.bin'');
               files' = filter (\<lambda>x. splitext_ext x = ext) files
           in if length files' = 0 then Some (Inl FileNotFoundError)
              else Some (Inr files')))"

subsection \<open>Sample files\<close>

text \<open>
  The file system seen by the readers: a path is mapped to the bytes of the file, and
  opening a path that is not there raises FileNotFoundError. Text mode decodes the
  bytes with the encoding of the locale and translates the line endings CR LF and CR
  to LF, as Python's universal newlines do. The model decodes one character per byte
  (ISO-8859-1), which is what every ASCII-compatible encoding does to a file of ASCII
  bytes, the only files that function mode encodes. On a file with a byte of 0x80 or
  above the encodings differ: under UTF-8 the bytes either do not decode
  (UnicodeDecodeError, raised while the file is read) or give a character outside
  ASCII, which \<^verbatim>\<open>bytes.fromhex\<close> refuses as it refuses the character of the model.
\<close>

type_synonym filesystem = "string \<rightharpoonup> bytes"

definition decode_text :: "bytes \<Rightarrow> string" where
  "decode_text bs = map (\<lambda>b. char_of (unat b)) bs"

fun universal_newlines :: "string \<Rightarrow> string" where
  "universal_newlines [] = []"
| "universal_newlines [c] = [if c = CHR 0x0D then CHR 0x0A else c]"
| "universal_newlines (c # d # ds) =
     (if c = CHR 0x0D \<and> d = CHR 0x0A then CHR 0x0A # universal_newlines ds
      else if c = CHR 0x0D then CHR 0x0A # universal_newlines (d # ds)
      else c # universal_newlines (d # ds))"

text \<open>Iterating over a text file yields its lines, each with its terminating newline
  (the last line may lack one). \<open>cur\<close> is the line read so far.\<close>

fun file_lines :: "string \<Rightarrow> string \<Rightarrow> string list" where
  "file_lines cur [] = (if cur = [] then [] else [cur])"
| "file_lines cur (c # cs) =
     (if c = CHR 0x0A then (cur @ [c]) # file_lines [] cs
      else file_lines (cur @ [c]) cs)"

definition open_text :: "filesystem \<Rightarrow> string \<Rightarrow> error + string list" where
  "open_text fs p =
     (case fs p of
        None \<Rightarrow> Inl FileNotFoundError
      | Some bs \<Rightarrow> Inr (file_lines [] (universal_newlines (decode_text bs))))"

definition open_binary :: "filesystem \<Rightarrow> string \<Rightarrow> error + bytes" where
  "open_binary fs p = (case fs p of None \<Rightarrow> Inl FileNotFoundError | Some bs \<Rightarrow> Inr bs)"

subsection \<open>read_files_function and read_files_raw\<close>

text \<open>\<^verbatim>\<open>line.strip('\n')\<close> removes the newlines at both ends.\<close>

definition strip_newline :: "string \<Rightarrow> string" where
  "strip_newline line =
     rev (dropWhile (\<lambda>c. c = CHR 0x0A) (rev (dropWhile (\<lambda>c. c = CHR 0x0A) line)))"

text \<open>The test of the reading loop: the lines that are passed over.\<close>

definition skipped :: "string \<Rightarrow> bool" where
  "skipped line = (line = ''FF,'' \<or> line = [] \<or> line = ''[]'')"

text \<open>The loop over the lines of one file; \<open>functions\<close> is the list appended to.\<close>

fun read_lines :: "string list \<Rightarrow> string list \<Rightarrow> string list" where
  "read_lines functions [] = functions"
| "read_lines functions (l # ls) =
     (let line = strip_newline l
      in if skipped line
         then read_lines functions ls
         else read_lines (functions @ [line]) ls)"

fun read_files_function_loop ::
  "filesystem \<Rightarrow> string list \<Rightarrow> string list \<Rightarrow> error + string list" where
  "read_files_function_loop fs functions [] = Inr functions"
| "read_files_function_loop fs functions (cur_file # rest) =
     (case open_text fs cur_file of
        Inl e \<Rightarrow> Inl e
      | Inr ls \<Rightarrow> read_files_function_loop fs (read_lines functions ls) rest)"

definition read_files_function :: "filesystem \<Rightarrow> string list \<Rightarrow> error + string list" where
  "read_files_function fs files_list = read_files_function_loop fs [] files_list"

fun read_files_raw_loop ::
  "filesystem \<Rightarrow> bytes list \<Rightarrow> string list \<Rightarrow> error + bytes list" where
  "read_files_raw_loop fs functions [] = Inr functions"
| "read_files_raw_loop fs functions (cur_file # rest) =
     (case open_binary fs cur_file of
        Inl e \<Rightarrow> Inl e
      | Inr content \<Rightarrow> read_files_raw_loop fs (functions @ [content]) rest)"

definition read_files_raw :: "filesystem \<Rightarrow> string list \<Rightarrow> error + bytes list" where
  "read_files_raw fs files_list = read_files_raw_loop fs [] files_list"

subsection \<open>encode_opcodes\<close>

text \<open>\<^verbatim>\<open>x.replace(",", "")\<close>.\<close>

definition remove_commas :: "string \<Rightarrow> string" where
  "remove_commas x = filter (\<lambda>c. c \<noteq> CHR '','') x"

definition hex_digit :: "char \<Rightarrow> nat option" where
  "hex_digit c =
     (let n = (of_char c :: nat)
      in if 48 \<le> n \<and> n \<le> 57 then Some (n - 48)
         else if 97 \<le> n \<and> n \<le> 102 then Some (n - 87)
         else if 65 \<le> n \<and> n \<le> 70 then Some (n - 55)
         else None)"

definition is_space :: "char \<Rightarrow> bool" where
  "is_space c = (let n = (of_char c :: nat) in (9 \<le> n \<and> n \<le> 13) \<or> n = 32)"

text \<open>\<^verbatim>\<open>bytes.fromhex\<close>: ASCII whitespace before a pair of digits is skipped; every
  byte is two hexadecimal digits; anything else raises ValueError.\<close>

fun fromhex :: "string \<Rightarrow> error + bytes" where
  "fromhex [] = Inr []"
| "fromhex [c] = (if is_space c then Inr [] else Inl ValueError)"
| "fromhex (c # d # ds) =
     (if is_space c then fromhex (d # ds)
      else (case (hex_digit c, hex_digit d) of
              (Some hi, Some lo) \<Rightarrow>
                (case fromhex ds of
                   Inl e \<Rightarrow> Inl e
                 | Inr bs \<Rightarrow> Inr (word_of_nat (16 * hi + lo) # bs))
            | _ \<Rightarrow> Inl ValueError))"

text \<open>\<^verbatim>\<open>list(map(f, xs))\<close> for an \<open>f\<close> that may raise: the first failure is raised.\<close>

fun map_raise :: "('a \<Rightarrow> error + 'b) \<Rightarrow> 'a list \<Rightarrow> error + 'b list" where
  "map_raise f [] = Inr []"
| "map_raise f (x # xs) =
     (case f x of
        Inl e \<Rightarrow> Inl e
      | Inr y \<Rightarrow> (case map_raise f xs of Inl e \<Rightarrow> Inl e | Inr ys \<Rightarrow> Inr (y # ys)))"

definition encode_opcodes :: "string list \<Rightarrow> error + bytes list" where
  "encode_opcodes func_list = map_raise fromhex (map remove_commas func_list)"

subsection \<open>read_and_clean_content\<close>

text \<open>
  \<^verbatim>\<open>[x[i:i + features] for i in range(0, len(x), features)]\<close>: \<open>range\<close> raises
  ValueError for a zero step and is empty for a negative one; for a positive step the
  indices are the multiples of the step below the length. Here \<open>x\<close> is the list that
  read_files_raw returned, one element per file, and the slices are slices of that list.
\<close>

definition chunks :: "int \<Rightarrow> 'a list \<Rightarrow> error + 'a list list" where
  "chunks features x =
     (if features = 0 then Inl ValueError
      else if features < 0 then Inr []
      else (let n = nat features
            in Inr (map (\<lambda>k. take n (drop (k * n) x)) [0 ..< (length x + n - 1) div n])))"

definition read_and_clean_content ::
  "filesystem \<Rightarrow> string list \<Rightarrow> bool \<Rightarrow> int \<Rightarrow> error + bytes list" where
  "read_and_clean_content fs files function features =
     (if function
      then (case read_files_function fs files of
              Inl e \<Rightarrow> Inl e
            | Inr x \<Rightarrow> encode_opcodes x)
      else (case read_files_raw fs files of
              Inl e \<Rightarrow> Inl e
            | Inr x \<Rightarrow>
                (case chunks features x of
                   Inl e \<Rightarrow> Inl e
                 | Inr x' \<Rightarrow> Inr (concat x'))))"

text \<open>
  The raw chunking as the specification words it, for comparison with the code: the
  blobs are concatenated into one byte stream, which is cut into consecutive windows
  of exactly \<open>F\<close> bytes; the remainder is dropped.
\<close>

definition spec_raw_windows :: "nat \<Rightarrow> bytes list \<Rightarrow> bytes list" where
  "spec_raw_windows F blobs =
     (let stream = concat blobs
      in map (\<lambda>k. take F (drop (k * F) stream)) [0 ..< length stream div F])"

subsection \<open>The dataset store (BinaryDs)\<close>

text \<open>
  The class BinaryDs is defined in binaryds.py and only imported by preprocess.py. Its
  data and operations follow section 3 and section 4.4 of the specification.
\<close>

text \<open>Modelled from the spec: the file of a store (binaryds.py). "A header recording
  features and function_granularity" and "a mapping from Category to ordered sequence
  of Example".\<close>

record ds_file =
  file_features :: int
  file_function_granularity :: bool
  file_categories :: "(int \<times> bytes list) list"

text \<open>Modelled from the spec: the class BinaryDs (binaryds.py). The object in memory, with
  "schema fields unset until the first set_features/set_function_granularity call" or
  a read, the examples of each category in insertion order, and the file that backs
  the store (\<open>on_disk\<close>, \<open>None\<close> when the file does not exist).\<close>

record BinaryDs =
  ds_features :: "int option"
  ds_function_granularity :: "bool option"
  ds_categories :: "(int \<times> bytes list) list"
  on_disk :: "ds_file option"

text \<open>Modelled from the spec: the constructor BinaryDs(path). "A store is created empty
  on first access ..., with schema fields unset"; the argument is the file found at
  the path.\<close>

definition BinaryDs_init :: "ds_file option \<Rightarrow> BinaryDs" where
  "BinaryDs_init file =
     \<lparr>ds_features = None, ds_function_granularity = None, ds_categories = [],
      on_disk = file\<rparr>"

text \<open>Modelled from the spec: BinaryDs.read(). "Load header and category map from disk.
  Fails with Not-Found if the file does not exist."\<close>

definition ds_read :: "BinaryDs \<Rightarrow> error + BinaryDs" where
  "ds_read ds =
     (case on_disk ds of
        None \<Rightarrow> Inl FileNotFoundError
      | Some f \<Rightarrow>
          Inr (ds\<lparr>ds_features := Some (file_features f),
                  ds_function_granularity := Some (file_function_granularity f),
                  ds_categories := file_categories f\<rparr>))"

text \<open>Modelled from the spec: BinaryDs.get_features(), a schema accessor.\<close>

definition get_features :: "BinaryDs \<Rightarrow> int option" where
  "get_features ds = ds_features ds"

text \<open>Modelled from the spec: BinaryDs.set_features(n), a schema accessor.\<close>

definition set_features :: "BinaryDs \<Rightarrow> int \<Rightarrow> BinaryDs" where
  "set_features ds n = ds\<lparr>ds_features := Some n\<rparr>"

text \<open>Modelled from the spec: BinaryDs.get_function_granularity(), a schema accessor.\<close>

definition get_function_granularity :: "BinaryDs \<Rightarrow> bool option" where
  "get_function_granularity ds = ds_function_granularity ds"

text \<open>Modelled from the spec: BinaryDs.set_function_granularity(b), a schema accessor.\<close>

definition set_function_granularity :: "BinaryDs \<Rightarrow> bool \<Rightarrow> BinaryDs" where
  "set_function_granularity ds b = ds\<lparr>ds_function_granularity := Some b\<rparr>"

text \<open>Modelled from the spec: BinaryDs.get(category). "Return the ordered Example sequence
  for that category, or an empty sequence if the category is unknown."\<close>

definition ds_get :: "BinaryDs \<Rightarrow> int \<Rightarrow> bytes list" where
  "ds_get ds category =
     (case map_of (ds_categories ds) category of None \<Rightarrow> [] | Some xs \<Rightarrow> xs)"

text \<open>Modelled from the spec: BinaryDs.set(category, examples). "Replace the stored
  sequence for that category with the given sequence."\<close>

definition ds_set :: "BinaryDs \<Rightarrow> int \<Rightarrow> bytes list \<Rightarrow> BinaryDs" where
  "ds_set ds category examples =
     ds\<lparr>ds_categories := AList.update category examples (ds_categories ds)\<rparr>"

text \<open>Modelled from the spec: the share of BinaryDs.rebalance (binaryds.py). The count in
  this store is to be "as close as achievable to the run's configured target ratio":
  \<open>target_count r n\<close> is the number of examples, out of \<open>n\<close>, nearest to \<open>r * n\<close>.\<close>

definition target_count :: "real \<Rightarrow> nat \<Rightarrow> nat" where
  "target_count r n = min n (nat \<lfloor>r * real n + 1 / 2\<rfloor>)"

text \<open>Modelled from the spec: BinaryDs.rebalance for one category (binaryds.py). The split
  is adjusted "by moving whole Examples between the two stores (never duplicating or
  dropping content)", moving "from the over-represented side's tail"; the examples
  moved are appended to the store that receives them.\<close>

fun rebalance_category :: "real \<Rightarrow> int \<Rightarrow> BinaryDs \<times> BinaryDs \<Rightarrow> BinaryDs \<times> BinaryDs" where
  "rebalance_category r c (this, other) =
     (let a = ds_get this c;
          b = ds_get other c;
          k = target_count r (length a + length b)
      in if k \<le> length a
         then (ds_set this c (take k a), ds_set other c (b @ drop k a))
         else (let m = length b - (k - length a)
               in (ds_set this c (a @ drop m b), ds_set other c (take m b))))"

text \<open>Modelled from the spec: BinaryDs.rebalance(other) (binaryds.py). The split is
  adjusted "for every category present in either store". The call in run_preprocess
  passes no ratio; the target ratio \<open>r\<close> is a parameter of the model.\<close>

definition rebalance :: "real \<Rightarrow> BinaryDs \<Rightarrow> BinaryDs \<Rightarrow> BinaryDs \<times> BinaryDs" where
  "rebalance r this other =
     fold (rebalance_category r)
          (remdups (map fst (ds_categories this) @ map fst (ds_categories other)))
          (this, other)"

subsection \<open>read_dataset\<close>

text \<open>
  The store is mutated in place, so the model returns the store as it is when the
  function ends, whether it returns or raises. Only FileNotFoundError is caught.
\<close>

definition read_dataset :: "BinaryDs \<Rightarrow> bool \<Rightarrow> int \<Rightarrow> (error + unit) \<times> BinaryDs" where
  "read_dataset dataset function features =
     (case ds_read dataset of
        Inr dataset' \<Rightarrow>
          (if get_function_granularity dataset' \<noteq> Some function
           then (Inl ValueError, dataset')
           else if get_features dataset' \<noteq> Some features
           then (Inl ValueError, dataset')
           else (Inr (), dataset'))
      | Inl FileNotFoundError \<Rightarrow>
          (Inr (), set_function_granularity (set_features dataset features) function)
      | Inl e \<Rightarrow> (Inl e, dataset))"

subsection \<open>Slices and shuffling\<close>

text \<open>\<^verbatim>\<open>xs[:k]\<close> and \<open>xs[k:]\<close> for an integer \<open>k\<close>: a negative \<open>k\<close> counts from the
  end, and an index beyond either end is clipped.\<close>

definition slice_to :: "int \<Rightarrow> 'a list \<Rightarrow> 'a list" where
  "slice_to k xs = (if 0 \<le> k then take (nat k) xs else take (length xs - nat (- k)) xs)"

definition slice_from :: "int \<Rightarrow> 'a list \<Rightarrow> 'a list" where
  "slice_from k xs = (if 0 \<le> k then drop (nat k) xs else drop (length xs - nat (- k)) xs)"

text \<open>
  \<^verbatim>\<open>random.shuffle(data)\<close>: for \<open>i\<close> from the last index down to 1, the element at
  \<open>i\<close> is exchanged with the one at a random index below \<open>i + 1\<close>. The random source
  is the parameter \<open>rnd\<close>: \<open>rnd i\<close> is the number drawn at index \<open>i\<close>, reduced below
  \<open>i + 1\<close>.
\<close>

fun shuffle_loop :: "(nat \<Rightarrow> nat) \<Rightarrow> nat \<Rightarrow> 'a list \<Rightarrow> 'a list" where
  "shuffle_loop rnd 0 x = x"
| "shuffle_loop rnd (Suc k) x =
     (let i = Suc k; j = rnd i mod (i + 1)
      in shuffle_loop rnd k (x[i := x ! j, j := x ! i]))"

definition shuffle :: "(nat \<Rightarrow> nat) \<Rightarrow> 'a list \<Rightarrow> 'a list" where
  "shuffle rnd x = shuffle_loop rnd (length x - 1) x"

subsection \<open>Floats\<close>

text \<open>
  A Python float is an IEEE 754 double: a finite value, an infinity or a NaN. A finite
  double is given by its exact rational value (the sign of a zero is not kept: no
  operation below depends on it).
\<close>

datatype pyfloat = Finite rat | PosInf | NegInf | NaN

text \<open>The integer part of the binary logarithm of a positive rational, from the bit
  lengths of its numerator and denominator.\<close>

definition floor_log2 :: "rat \<Rightarrow> int" where
  "floor_log2 q =
     (let (p, d) = quotient_of q;
          t = bitlen p - bitlen d
      in if 2 powi t \<le> q then t else t - 1)"

text \<open>Rounding to the nearest integer, a tie going to the even one.\<close>

definition round_half_even :: "rat \<Rightarrow> int" where
  "round_half_even x =
     (let f = \<lfloor>x\<rfloor>;
          d = x - of_int f
      in if d < 1 / 2 then f
         else if 1 / 2 < d then f + 1
         else if even f then f else f + 1)"

text \<open>
  The double nearest to an exact value (round to nearest, ties to even), which is the
  result of every arithmetic operation on doubles: the value is rounded to 53
  significant bits, or to a multiple of \<open>2 ^ -1074\<close> in the subnormal range, and
  becomes an infinity when the rounded magnitude reaches \<open>2 ^ 1024\<close>.
\<close>

definition round_double :: "rat \<Rightarrow> pyfloat" where
  "round_double q =
     (if q = 0 then Finite 0
      else (let a = \<bar>q\<bar>;
                e = max (floor_log2 a - 52) (- 1074);
                v = of_int (round_half_even (a / 2 powi e)) * 2 powi e
            in if 2 ^ 1024 \<le> v then (if 0 < q then PosInf else NegInf)
               else Finite (if 0 < q then v else - v)))"

text \<open>The conversion of an integer operand to a float: correctly rounded, and
  OverflowError when the integer is too large for a double.\<close>

definition float_of_int :: "int \<Rightarrow> error + pyfloat" where
  "float_of_int n =
     (case round_double (of_int n) of
        Finite v \<Rightarrow> Inr (Finite v)
      | _ \<Rightarrow> Inl OverflowError)"

text \<open>The product of two floats.\<close>

fun float_mul :: "pyfloat \<Rightarrow> pyfloat \<Rightarrow> pyfloat" where
  "float_mul NaN y = NaN"
| "float_mul x NaN = NaN"
| "float_mul (Finite a) (Finite b) = round_double (a * b)"
| "float_mul (Finite a) PosInf = (if a = 0 then NaN else if 0 < a then PosInf else NegInf)"
| "float_mul (Finite a) NegInf = (if a = 0 then NaN else if 0 < a then NegInf else PosInf)"
| "float_mul PosInf (Finite b) = (if b = 0 then NaN else if 0 < b then PosInf else NegInf)"
| "float_mul NegInf (Finite b) = (if b = 0 then NaN else if 0 < b then NegInf else PosInf)"
| "float_mul PosInf PosInf = PosInf"
| "float_mul PosInf NegInf = NegInf"
| "float_mul NegInf PosInf = NegInf"
| "float_mul NegInf NegInf = PosInf"

text \<open>\<^verbatim>\<open>math.floor\<close> of a float: OverflowError for an infinity, ValueError for a NaN.\<close>

definition math_floor :: "pyfloat \<Rightarrow> error + int" where
  "math_floor x =
     (case x of
        Finite q \<Rightarrow> Inr \<lfloor>q\<rfloor>
      | PosInf \<Rightarrow> Inl OverflowError
      | NegInf \<Rightarrow> Inl OverflowError
      | NaN \<Rightarrow> Inl ValueError)"

text \<open>The value of a finite float as a real number.\<close>

definition float_value :: "pyfloat \<Rightarrow> real" where
  "float_value x = (case x of Finite q \<Rightarrow> of_rat q | _ \<Rightarrow> 0)"

subsection \<open>The split and the append step\<close>

text \<open>Line 39: \<^verbatim>\<open>math.floor(len(data) * split)\<close> for a batch of \<open>n\<close> examples. The
  length is converted to a float, the product is rounded to a double, and its floor
  is the index.\<close>

definition split_index_of :: "pyfloat \<Rightarrow> nat \<Rightarrow> error + int" where
  "split_index_of split n =
     (case float_of_int (int n) of
        Inl e \<Rightarrow> Inl e
      | Inr x \<Rightarrow> math_floor (float_mul x split))"

text \<open>Lines 39 to 41: the cut of the batch at that index.\<close>

definition split_batch :: "pyfloat \<Rightarrow> 'a list \<Rightarrow> error + 'a list \<times> 'a list" where
  "split_batch split data =
     (case split_index_of split (length data) of
        Inl e \<Rightarrow> Inl e
      | Inr split_index \<Rightarrow> Inr (slice_to split_index data, slice_from split_index data))"

text \<open>Lines 43 to 48: the examples stored for the category are fetched, extended with
  the new ones and set again, in each store.\<close>

definition extend_category ::
  "int \<Rightarrow> BinaryDs \<Rightarrow> BinaryDs \<Rightarrow> bytes list \<Rightarrow> bytes list \<Rightarrow> BinaryDs \<times> BinaryDs" where
  "extend_category category train test new_train_data new_test_data =
     (let current_train_data = ds_get train category;
          current_test_data = ds_get test category;
          current_train_data' = current_train_data @ new_train_data;
          current_test_data' = current_test_data @ new_test_data
      in (ds_set train category current_train_data',
          ds_set test category current_test_data'))"

subsection \<open>run_preprocess\<close>

text \<open>
  A call binds the arguments to the parameters before the body runs, and a required
  parameter left without an argument raises TypeError. read_and_clean_content has
  three required parameters; the argument for \<open>features\<close> is optional in the model of
  the call.
\<close>

definition call_read_and_clean_content ::
  "filesystem \<Rightarrow> string list \<Rightarrow> bool \<Rightarrow> int option \<Rightarrow> error + bytes list" where
  "call_read_and_clean_content fs files function features_arg =
     (case features_arg of
        None \<Rightarrow> Inl TypeError
      | Some features \<Rightarrow> read_and_clean_content fs files function features)"

text \<open>Lines 35 to 49, for the list of files that gather_files returned. The result is
  the outcome with both stores as they are when the run ends. Line 37 passes two
  arguments. The call of rebalance passes no ratio: the model gives the modelled
  rebalance the value of \<open>split\<close>, which is finite whenever line 39 has not raised.\<close>

definition run_after_gather ::
  "filesystem \<Rightarrow> (nat \<Rightarrow> nat) \<Rightarrow> string list \<Rightarrow> int \<Rightarrow> BinaryDs \<Rightarrow> BinaryDs \<Rightarrow> bool \<Rightarrow> int
     \<Rightarrow> pyfloat \<Rightarrow> (error + unit) \<times> BinaryDs \<times> BinaryDs" where
  "run_after_gather fs rnd files category train test function features split =
     (case read_dataset train function features of
        (Inl e, train1) \<Rightarrow> (Inl e, train1, test)
      | (Inr u, train1) \<Rightarrow>
          (case read_dataset test function features of
             (Inl e, test1) \<Rightarrow> (Inl e, train1, test1)
           | (Inr u', test1) \<Rightarrow>
               (case call_read_and_clean_content fs files function None of
                  Inl e \<Rightarrow> (Inl e, train1, test1)
                | Inr data \<Rightarrow>
                    (let data' = shuffle rnd data
                     in case split_batch split data' of
                          Inl e \<Rightarrow> (Inl e, train1, test1)
                        | Inr (new_train_data, new_test_data) \<Rightarrow>
                            (let (train2, test2) =
                                   extend_category category train1 test1
                                     new_train_data new_test_data;
                                 (train3, test3) = rebalance (float_value split) train2 test2
                             in (Inr (), train3, test3))))))"

text \<open>The whole function. \<open>walk\<close> is what os.walk yields for \<open>input_dir\<close>,
  \<open>train_file\<close> and \<open>test_file\<close> are the files train.bin and test.bin of
  \<open>model_dir\<close>. \<open>None\<close>: the function does not return.\<close>

definition run_preprocess ::
  "walk_entry list \<Rightarrow> filesystem \<Rightarrow> (nat \<Rightarrow> nat) \<Rightarrow> ds_file option \<Rightarrow> ds_file option
     \<Rightarrow> string \<Rightarrow> int \<Rightarrow> bool \<Rightarrow> int \<Rightarrow> pyfloat
     \<Rightarrow> ((error + unit) \<times> BinaryDs \<times> BinaryDs) option" where
  "run_preprocess walk fs rnd train_file test_file input_dir category function features split =
     (let train = BinaryDs_init train_file;
          test = BinaryDs_init test_file
      in case gather_files walk input_dir function of
           None \<Rightarrow> None
         | Some (Inl e) \<Rightarrow> Some (Inl e, train, test)
         | Some (Inr files) \<Rightarrow>
             Some (run_after_gather fs rnd files category train test function features split))"

section \<open>Properties of gather_files\<close>

lemma gather_inner_returns:
  assumes "gather_inner path i files = Some r"
  shows "\<not> i < length files"
proof (rule gather_inner.raw_induct [where P = "\<lambda>p k fs y. \<not> k < length fs", OF _ assms])
  fix g :: "string \<Rightarrow> nat \<Rightarrow> string list \<Rightarrow> string list option"
  fix p k fs y
  assume IH: "\<And>p k fs y. g p k fs = Some y \<Longrightarrow> \<not> k < length fs"
  assume step: "(if k < length fs then g p (Suc k) (fs @ [os_path_join p (fs ! k)]) else Some fs) = Some y"
  show "\<not> k < length fs"
  proof
    assume lt: "k < length fs"
    with step have "g p (Suc k) (fs @ [os_path_join p (fs ! k)]) = Some y"
      by simp
    from IH [OF this] lt show False by simp
  qed
qed

lemma gather_inner_diverges:
  "i < length files \<Longrightarrow> gather_inner path i files = None"
  using gather_inner_returns [of path i files] by (cases "gather_inner path i files") auto

lemma gather_inner_done:
  "\<not> i < length files \<Longrightarrow> gather_inner path i files = Some files"
  by (subst gather_inner.simps) simp

lemma gather_inner_0:
  "gather_inner path 0 files = (if files = [] then Some [] else None)"
  by (simp add: gather_inner_diverges gather_inner_done)

lemma gather_outer_None_iff:
  "(gather_outer path walk files = None) = (\<exists>e \<in> set walk. snd (snd e) \<noteq> [])"
  by (induction path walk files rule: gather_outer.induct) (auto simp: gather_inner_0)

lemma gather_outer_Some:
  "gather_outer path walk files = Some r \<Longrightarrow> r = (if walk = [] then files else [])"
  by (induction path walk files rule: gather_outer.induct)
     (auto simp: gather_inner_0 split: if_splits)

lemma gather_files_None_iff:
  "(gather_files walk path function = None) = (\<exists>e \<in> set walk. snd (snd e) \<noteq> [])"
proof -
  have "(gather_files walk path function = None) = (gather_outer path walk [] = None)"
    by (simp add: gather_files_def Let_def split: option.splits)
  then show ?thesis by (simp add: gather_outer_None_iff)
qed

lemma gather_files_no_list:
  "gather_files walk path function \<noteq> Some (Inr files)"
proof (cases "gather_outer path walk []")
  case None
  then show ?thesis by (simp add: gather_files_def)
next
  case (Some r)
  then have "r = []" using gather_outer_Some [of path walk "[]" r] by (simp split: if_splits)
  with Some show ?thesis by (simp add: gather_files_def)
qed

text \<open>
  Claim C2. gather_files does not return whenever some directory of the walk has at
  least one file, because the inner loop appends to the list it iterates over; it
  returns exactly when every directory visited has no file at all.
\<close>

theorem gather_files_diverges_iff:
  "(gather_files walk path function = None) = (\<exists>e \<in> set walk. snd (snd e) \<noteq> [])"
  by (rule gather_files_None_iff)

theorem gather_files_diverges_iff_witness:
  "gather_files [(''in'', [''sub''], []), (''in/sub'', [], [''a.bin''])] ''in'' False = None
   \<and> gather_files [(''in'', [''sub''], []), (''in/sub'', [], [])] ''in'' False \<noteq> None"
  using gather_files_diverges_iff [of "[(''in'', [''sub''], []), (''in/sub'', [], [''a.bin''])]" "''in''" False]
        gather_files_diverges_iff [of "[(''in'', [''sub''], []), (''in/sub'', [], [])]" "''in''" False]
  by simp

text \<open>
  Claim C4. The claim says that a directory with one matching file gives a non-empty
  list of paths. On the directory \<open>in\<close> holding the single file \<open>a.txt\<close>, with function
  granularity, the code does not return at all; and no input makes it return a list.
\<close>

theorem gather_files_matching_file_diverges:
  "gather_files [(''in'', [], [''a.txt''])] ''in'' True = None
   \<and> (\<forall>walk path function files. gather_files walk path function \<noteq> Some (Inr files))"
  by (simp add: gather_files_None_iff gather_files_no_list)

section \<open>Properties of run_preprocess\<close>

lemma read_dataset_fresh:
  "on_disk ds = None \<Longrightarrow>
   read_dataset ds function features =
     (Inr (), set_function_granularity (set_features ds features) function)"
  by (simp add: read_dataset_def ds_read_def)

lemma read_dataset_cases:
  "fst (read_dataset ds function features) = Inr () \<or>
   fst (read_dataset ds function features) = Inl ValueError"
  by (auto simp: read_dataset_def ds_read_def split: option.splits)

lemma run_after_gather_not_done:
  "fst (run_after_gather fs rnd files category train test function features split) \<noteq> Inr ()"
  by (auto simp: run_after_gather_def call_read_and_clean_content_def split: prod.splits sum.splits)

text \<open>
  Claim C1. Whatever list of files reaches line 37, once both read_dataset calls have
  succeeded the call of read_and_clean_content with two arguments raises TypeError,
  and the stores are as read_dataset left them. So the lines after it are never
  reached: the rest of run_preprocess never ends normally, and the whole function,
  when it returns at all, has raised the FileNotFoundError of gather_files.
\<close>

theorem run_preprocess_type_error:
  "(fst (read_dataset train function features) = Inr () \<longrightarrow>
    fst (read_dataset test function features) = Inr () \<longrightarrow>
      run_after_gather fs rnd files category train test function features split
        = (Inl TypeError, snd (read_dataset train function features),
           snd (read_dataset test function features)))
   \<and> fst (run_after_gather fs rnd files category train test function features split) \<noteq> Inr ()
   \<and> (\<forall>r. run_preprocess walk fs rnd train_file test_file input_dir category function
              features split = Some r \<longrightarrow> fst r = Inl FileNotFoundError)"
proof (intro conjI impI allI)
  assume "fst (read_dataset train function features) = Inr ()"
    and "fst (read_dataset test function features) = Inr ()"
  then show "run_after_gather fs rnd files category train test function features split
        = (Inl TypeError, snd (read_dataset train function features),
           snd (read_dataset test function features))"
    by (auto simp: run_after_gather_def call_read_and_clean_content_def split: prod.splits sum.splits)
next
  show "fst (run_after_gather fs rnd files category train test function features split) \<noteq> Inr ()"
    by (rule run_after_gather_not_done)
next
  fix r
  assume "run_preprocess walk fs rnd train_file test_file input_dir category function
              features split = Some r"
  then show "fst r = Inl FileNotFoundError"
    using gather_files_no_list [of walk input_dir "function"]
    by (auto simp: run_preprocess_def Let_def gather_files_def split: option.splits sum.splits if_splits)
qed

theorem run_preprocess_type_error_witness:
  "fst (read_dataset (BinaryDs_init None) True 4) = Inr ()
   \<and> fst (run_after_gather Map.empty (\<lambda>i. 0) [''in/a.txt''] 0 (BinaryDs_init None)
            (BinaryDs_init None) True 4 (Finite (1 / 2))) = Inl TypeError
   \<and> run_preprocess [] Map.empty (\<lambda>i. 0) None None ''in'' 0 True 4 (Finite (1 / 2))
       = Some (Inl FileNotFoundError, BinaryDs_init None, BinaryDs_init None)"
proof -
  have h: "fst (read_dataset (BinaryDs_init None) True 4) = Inr ()"
    by (simp add: read_dataset_def ds_read_def BinaryDs_init_def)
  have r: "run_preprocess [] Map.empty (\<lambda>i. 0) None None ''in'' 0 True 4 (Finite (1 / 2))
       = Some (Inl FileNotFoundError, BinaryDs_init None, BinaryDs_init None)"
    by (simp add: run_preprocess_def gather_files_def)
  from run_preprocess_type_error [of "BinaryDs_init None" True 4 "BinaryDs_init None"
      Map.empty "\<lambda>i. 0" "[''in/a.txt'']" 0 "Finite (1 / 2)" "[]" None None "''in''"] h r
  show ?thesis by simp
qed

section \<open>Properties of the readers and the encoder\<close>

lemma concat_chunk_prefix:
  "concat (map (\<lambda>k. take n (drop (k * n) x)) [0 ..< m]) = take (m * n) x"
proof (induction m)
  case 0
  then show ?case by simp
next
  case (Suc m)
  have "take (m * n) x @ take n (drop (m * n) x) = take (m * n + n) x"
    by (simp add: take_add)
  with Suc show ?case by (simp add: add.commute)
qed

lemma chunks_concat:
  "0 < features \<Longrightarrow> chunks features x = Inr xs \<Longrightarrow> concat xs = x"
proof -
  assume pos: "0 < features" and c: "chunks features x = Inr xs"
  define n where "n = nat features"
  have n: "0 < n" using pos by (simp add: n_def)
  have len: "length x \<le> ((length x + n - 1) div n) * n"
  proof -
    have "length x + n - 1 = ((length x + n - 1) div n) * n + (length x + n - 1) mod n"
      by simp
    moreover have "(length x + n - 1) mod n \<le> n - 1"
      using n mod_less_divisor [of n "length x + n - 1"] by linarith
    ultimately show ?thesis using n by linarith
  qed
  from c pos have "xs = map (\<lambda>k. take n (drop (k * n) x)) [0 ..< (length x + n - 1) div n]"
    by (auto simp: chunks_def Let_def n_def)
  then show ?thesis using len by (simp add: concat_chunk_prefix)
qed

lemma raw_mode_identity:
  "read_and_clean_content fs files False (int (Suc n)) = read_files_raw fs files"
proof (cases "read_files_raw fs files")
  case (Inl e)
  then show ?thesis by (simp add: read_and_clean_content_def)
next
  case (Inr x)
  obtain xs where xs: "chunks (int (Suc n)) x = Inr xs"
    by (auto simp: chunks_def Let_def)
  have "concat xs = x" using chunks_concat [OF _ xs] by simp
  with Inr xs show ?thesis by (simp add: read_and_clean_content_def)
qed

text \<open>
  Claim C3. The claim says that raw mode cuts the concatenated bytes into windows of
  \<open>features\<close> bytes. The code slices the list of file contents, not the bytes, and
  flattens the slices again: for every positive \<open>features\<close> the result is the list of
  whole files. One file of five bytes with \<open>features = 2\<close> gives one example of five
  bytes, where the windows of the specification are two examples of two bytes.
\<close>

theorem raw_mode_returns_whole_files:
  "read_and_clean_content [''in/a.bin'' \<mapsto> [1, 2, 3, 4, 5]] [''in/a.bin''] False 2
     = Inr [[1, 2, 3, 4, 5]]
   \<and> spec_raw_windows 2 [[1, 2, 3, 4, 5]] = [[1, 2], [3, 4]]
   \<and> (\<forall>fs files n. read_and_clean_content fs files False (int (Suc n)) = read_files_raw fs files)"
proof (intro conjI allI)
  have "read_and_clean_content [''in/a.bin'' \<mapsto> [1, 2, 3, 4, 5]] [''in/a.bin''] False (int (Suc 1))
      = read_files_raw [''in/a.bin'' \<mapsto> [1, 2, 3, 4, 5]] [''in/a.bin'']"
    by (rule raw_mode_identity)
  then show "read_and_clean_content [''in/a.bin'' \<mapsto> [1, 2, 3, 4, 5]] [''in/a.bin''] False 2
     = Inr [[1, 2, 3, 4, 5]]"
    by (simp add: read_files_raw_def open_binary_def)
next
  show "spec_raw_windows 2 [[1, 2, 3, 4, 5]] = [[1, 2], [3, 4]]"
    by (simp add: spec_raw_windows_def upt_rec)
next
  fix fs files n
  show "read_and_clean_content fs files False (int (Suc n)) = read_files_raw fs files"
    by (rule raw_mode_identity)
qed








section \<open>Properties of read_dataset\<close>

lemma read_dataset_mismatch:
  assumes "on_disk ds = Some f"
    and "file_function_granularity f \<noteq> function \<or> file_features f \<noteq> features"
  shows "\<exists>ds'. ds_read ds = Inr ds' \<and> read_dataset ds function features = (Inl ValueError, ds')"
  using assms
  by (auto simp: read_dataset_def ds_read_def get_function_granularity_def get_features_def)

lemma read_dataset_on_disk:
  "on_disk (snd (read_dataset ds function features)) = on_disk ds"
  by (auto simp: read_dataset_def ds_read_def set_features_def set_function_granularity_def
      split: option.splits)

lemma run_after_gather_train_mismatch:
  assumes "fst (read_dataset train function features) = Inl ValueError"
  shows "run_after_gather fs rnd files category train test function features split
           = (Inl ValueError, snd (read_dataset train function features), test)"
  using assms by (auto simp: run_after_gather_def split: prod.splits sum.splits)

lemma run_after_gather_test_mismatch:
  assumes "fst (read_dataset train function features) = Inr ()"
    and "fst (read_dataset test function features) = Inl ValueError"
  shows "run_after_gather fs rnd files category train test function features split
           = (Inl ValueError, snd (read_dataset train function features),
              snd (read_dataset test function features))"
  using assms by (auto simp: run_after_gather_def split: prod.splits sum.splits)

text \<open>
  Claim C5. A store whose file exists with a granularity or a number of features other
  than the requested one makes read_dataset raise ValueError, the store being exactly
  what read() loaded: nothing has been set in it. A store without a file is set up
  with the requested features and granularity. In the run, a mismatch in either store
  ends lines 35 to 49 with ValueError before any examples are set or moved: each
  store is then as read_dataset left it, or untouched, and both files are unchanged.
\<close>

theorem read_dataset_schema_check:
  "(on_disk ds = Some f \<longrightarrow>
      (file_function_granularity f \<noteq> function \<or> file_features f \<noteq> features) \<longrightarrow>
      (\<exists>ds'. ds_read ds = Inr ds' \<and> read_dataset ds function features = (Inl ValueError, ds')))
   \<and> (on_disk ds = None \<longrightarrow>
        read_dataset ds function features =
          (Inr (), set_function_granularity (set_features ds features) function))
   \<and> (fst (read_dataset train function features) = Inl ValueError
        \<or> fst (read_dataset test function features) = Inl ValueError \<longrightarrow>
        (\<exists>train' test'.
           run_after_gather fs rnd files category train test function features split
             = (Inl ValueError, train', test')
           \<and> train' = snd (read_dataset train function features)
           \<and> (test' = test \<or> test' = snd (read_dataset test function features))
           \<and> on_disk train' = on_disk train \<and> on_disk test' = on_disk test))"
proof (intro conjI impI)
  assume "on_disk ds = Some f"
    and "file_function_granularity f \<noteq> function \<or> file_features f \<noteq> features"
  then show "\<exists>ds'. ds_read ds = Inr ds' \<and> read_dataset ds function features = (Inl ValueError, ds')"
    by (rule read_dataset_mismatch)
next
  assume "on_disk ds = None"
  then show "read_dataset ds function features =
          (Inr (), set_function_granularity (set_features ds features) function)"
    by (rule read_dataset_fresh)
next
  assume bad: "fst (read_dataset train function features) = Inl ValueError
        \<or> fst (read_dataset test function features) = Inl ValueError"
  show "\<exists>train' test'.
           run_after_gather fs rnd files category train test function features split
             = (Inl ValueError, train', test')
           \<and> train' = snd (read_dataset train function features)
           \<and> (test' = test \<or> test' = snd (read_dataset test function features))
           \<and> on_disk train' = on_disk train \<and> on_disk test' = on_disk test"
  proof (cases "fst (read_dataset train function features) = Inl ValueError")
    case True
    from run_after_gather_train_mismatch [OF True] show ?thesis
      by (simp add: read_dataset_on_disk)
  next
    case False
    with read_dataset_cases [of train "function" features]
    have ok: "fst (read_dataset train function features) = Inr ()" by blast
    from False bad have "fst (read_dataset test function features) = Inl ValueError" by blast
    from run_after_gather_test_mismatch [OF ok this] show ?thesis
      by (simp add: read_dataset_on_disk)
  qed
qed

theorem read_dataset_schema_check_witness:
  "(\<exists>ds'. ds_read (BinaryDs_init (Some \<lparr>file_features = 8, file_function_granularity = True,
                                          file_categories = [(0, [[1]])]\<rparr>)) = Inr ds'
       \<and> read_dataset (BinaryDs_init (Some \<lparr>file_features = 8, file_function_granularity = True,
                                          file_categories = [(0, [[1]])]\<rparr>)) True 4
           = (Inl ValueError, ds'))
   \<and> read_dataset (BinaryDs_init None) True 4
       = (Inr (), set_function_granularity (set_features (BinaryDs_init None) 4) True)
   \<and> fst (run_after_gather Map.empty (\<lambda>i. 0) [''in/a.txt''] 0 (BinaryDs_init None)
            (BinaryDs_init (Some \<lparr>file_features = 8, file_function_granularity = True,
                                  file_categories = [(0, [[1]])]\<rparr>)) True 4 (Finite (1 / 2)))
       = Inl ValueError"
proof -
  let ?f = "\<lparr>file_features = 8, file_function_granularity = True,
              file_categories = [(0, [[1 :: byte]])]\<rparr>"
  have a: "on_disk (BinaryDs_init (Some ?f)) = Some ?f" by (simp add: BinaryDs_init_def)
  have b: "file_function_granularity ?f \<noteq> True \<or> file_features ?f \<noteq> 4" by simp
  have c: "on_disk (BinaryDs_init None) = None" by (simp add: BinaryDs_init_def)
  have d: "fst (read_dataset (BinaryDs_init None) True 4) = Inl ValueError
        \<or> fst (read_dataset (BinaryDs_init (Some ?f)) True 4) = Inl ValueError"
    by (simp add: read_dataset_def ds_read_def BinaryDs_init_def get_function_granularity_def
        get_features_def)
  note t1 = read_dataset_schema_check [of "BinaryDs_init (Some ?f)" ?f True 4
      "BinaryDs_init None" "BinaryDs_init (Some ?f)" Map.empty "\<lambda>i. 0" "[''in/a.txt'']" 0 "Finite (1 / 2)"]
  note t2 = read_dataset_schema_check [of "BinaryDs_init None" ?f True 4
      "BinaryDs_init None" "BinaryDs_init (Some ?f)" Map.empty "\<lambda>i. 0" "[''in/a.txt'']" 0 "Finite (1 / 2)"]
  from t1 a b have p1: "\<exists>ds'. ds_read (BinaryDs_init (Some ?f)) = Inr ds'
       \<and> read_dataset (BinaryDs_init (Some ?f)) True 4 = (Inl ValueError, ds')" by blast
  from t2 c have p2: "read_dataset (BinaryDs_init None) True 4
       = (Inr (), set_function_granularity (set_features (BinaryDs_init None) 4) True)" by blast
  from t1 d have p3: "fst (run_after_gather Map.empty (\<lambda>i. 0) [''in/a.txt''] 0 (BinaryDs_init None)
            (BinaryDs_init (Some ?f)) True 4 (Finite (1 / 2))) = Inl ValueError" by auto
  from p1 p2 p3 show ?thesis by blast
qed

section \<open>Properties of the split and of the append step\<close>

lemma mset_shuffle_loop:
  "k < length x \<Longrightarrow> mset (shuffle_loop rnd k x) = mset x"
proof (induction k arbitrary: x)
  case 0
  then show ?case by simp
next
  case (Suc k)
  define j where "j = rnd (Suc k) mod (Suc k + 1)"
  have j: "j < length x" using Suc.prems by (simp add: j_def) (meson less_Suc_eq_le mod_less_divisor order_le_less_trans zero_less_Suc)
  have "mset (x[Suc k := x ! j, j := x ! Suc k]) = mset x"
    using Suc.prems j by (simp add: mset_swap)
  moreover have "k < length (x[Suc k := x ! j, j := x ! Suc k])"
    using Suc.prems by simp
  ultimately show ?case using Suc.IH [of "x[Suc k := x ! j, j := x ! Suc k]"]
    by (simp add: Let_def j_def)
qed

lemma mset_shuffle: "mset (shuffle rnd x) = mset x"
proof (cases x)
  case Nil
  then show ?thesis by (simp add: shuffle_def)
next
  case (Cons a as)
  then have "length x - 1 < length x" by simp
  then show ?thesis unfolding shuffle_def by (rule mset_shuffle_loop)
qed

lemma length_shuffle: "length (shuffle rnd x) = length x"
  using mset_shuffle [of rnd x] by (metis size_mset)

lemma ds_get_ds_set:
  "ds_get (ds_set ds c xs) c' = (if c' = c then xs else ds_get ds c')"
  by (simp add: ds_get_def ds_set_def update_conv')

lemma round_half_even_of_int: "round_half_even (of_int z) = z"
  by (simp add: round_half_even_def)

lemma round_half_even_nonneg: "0 \<le> x \<Longrightarrow> 0 \<le> round_half_even x"
proof -
  assume "0 \<le> x"
  then have "0 \<le> \<lfloor>x\<rfloor>" by simp
  then show ?thesis by (simp add: round_half_even_def Let_def)
qed

lemma round_half_even_le: "x \<le> of_int M \<Longrightarrow> round_half_even x \<le> M"
proof -
  assume le: "x \<le> of_int M"
  then have f: "\<lfloor>x\<rfloor> \<le> M" by (simp add: floor_le_iff)
  show ?thesis
  proof (cases "\<lfloor>x\<rfloor> = M")
    case True
    then have "x - of_int \<lfloor>x\<rfloor> \<le> 0" using le by simp
    then have "x - of_int \<lfloor>x\<rfloor> < 1 / 2" by linarith
    with True show ?thesis by (simp add: round_half_even_def Let_def)
  next
    case False
    with f have "\<lfloor>x\<rfloor> + 1 \<le> M" by simp
    then show ?thesis using f by (simp add: round_half_even_def Let_def)
  qed
qed

lemma floor_log2_lower:
  assumes "0 < a"
  shows "2 powi (floor_log2 a) \<le> a"
proof -
  obtain p d where pd: "quotient_of a = (p, d)" by (cases "quotient_of a")
  then have d: "0 < d" by (rule quotient_of_denom_pos)
  have a: "a = of_int p / of_int d" using pd by (rule quotient_of_div)
  have p: "0 < p"
  proof (rule ccontr)
    assume "\<not> 0 < p"
    then have "of_int p \<le> (0::rat)" by simp
    then have "a \<le> 0" using d unfolding a by (simp add: divide_nonpos_pos)
    with assms show False by simp
  qed
  let ?t = "bitlen p - bitlen d"
  show ?thesis
  proof (cases "2 powi ?t \<le> a")
    case True
    then show ?thesis by (simp add: floor_log2_def pd)
  next
    case False
    have bp: "1 \<le> bitlen p" using p by (simp add: bitlen_alt_def)
    have bd: "0 \<le> bitlen d" by (rule bitlen_nonneg)
    have "(2::int) ^ nat (bitlen p - 1) \<le> p" using bitlen_bounds [OF p] by simp
    then have "(of_int ((2::int) ^ nat (bitlen p - 1)) :: rat) \<le> of_int p"
      by (simp only: of_int_le_iff)
    then have lo: "(2::rat) powi (bitlen p - 1) \<le> of_int p"
      using bp by (simp add: power_int_def)
    have "d < (2::int) ^ nat (bitlen d)" using bitlen_bounds [OF d] by simp
    then have "(of_int d :: rat) < of_int ((2::int) ^ nat (bitlen d))"
      by (simp only: of_int_less_iff)
    then have hi: "of_int d \<le> (2::rat) powi (bitlen d)"
      using bd by (simp add: power_int_def)
    have "(2::rat) powi (?t - 1) = 2 powi ((bitlen p - 1) - bitlen d)"
      by (simp add: algebra_simps)
    also have "\<dots> = 2 powi (bitlen p - 1) / 2 powi (bitlen d)"
      by (rule power_int_diff) simp
    also have "\<dots> \<le> of_int p / of_int d"
      using lo hi d p by (intro frac_le) simp_all
    finally have "(2::rat) powi (?t - 1) \<le> of_int p / of_int d" .
    then have "(2::rat) powi (?t - 1) \<le> a" by (simp only: a [symmetric])
    moreover have "floor_log2 a = ?t - 1" using False by (simp add: floor_log2_def pd)
    ultimately show ?thesis by simp
  qed
qed

lemma floor_log2_small:
  assumes "0 < a" and "a < 2 ^ 53"
  shows "floor_log2 a \<le> 52"
proof (rule ccontr)
  assume "\<not> floor_log2 a \<le> 52"
  then have "53 \<le> floor_log2 a" by simp
  then have "(2::rat) powi 53 \<le> 2 powi (floor_log2 a)"
    by (intro power_int_increasing) simp_all
  also have "\<dots> \<le> a" by (rule floor_log2_lower [OF assms(1)])
  finally show False using assms(2) by simp
qed


text \<open>For a positive value bounded by a natural number below 2^53, the rounding
  exponent is not positive, so that the bound itself is a multiple of the unit.\<close>

lemma rounding_unit:
  assumes "0 < a" and "a \<le> of_nat N" and "N < 2 ^ 53"
  defines "e \<equiv> max (floor_log2 a - 52) (- 1074)"
  shows "(0::rat) < 2 powi e"
    and "of_nat N / (2::rat) powi e = of_int (int N * 2 ^ nat (- e))"
proof -
  have N: "(of_nat N :: rat) < 2 ^ 53" using assms(3) by simp
  have "a < 2 ^ 53" using assms(2) N by (rule order_le_less_trans)
  then have "floor_log2 a \<le> 52" by (rule floor_log2_small [OF assms(1)])
  then have e: "e \<le> 0" by (simp add: e_def)
  show pos: "(0::rat) < 2 powi e" by simp
  have "(2::rat) powi e * 2 powi (- e) = 2 powi (e + - e)"
    by (rule power_int_add [symmetric]) simp
  moreover have "(2::rat) powi (- e) = 2 ^ nat (- e)"
    using e by (simp add: power_int_nonneg_exp)
  ultimately have inv: "(2::rat) powi e * 2 ^ nat (- e) = 1" by simp
  have "of_nat N / (2::rat) powi e = of_nat N * ((2::rat) powi e * 2 ^ nat (- e)) / 2 powi e"
    by (simp only: inv mult_1_right)
  also have "\<dots> = of_nat N * 2 ^ nat (- e)" using pos by simp
  also have "\<dots> = of_int (int N * 2 ^ nat (- e))" by simp
  finally show "of_nat N / (2::rat) powi e = of_int (int N * 2 ^ nat (- e))" .
qed

lemma round_double_unfold:
  assumes "0 < a"
  shows "round_double a =
           (let e = max (floor_log2 a - 52) (- 1074);
                v = of_int (round_half_even (a / 2 powi e)) * 2 powi e
            in if 2 ^ 1024 \<le> v then PosInf else Finite v)"
  using assms by (simp add: round_double_def Let_def)

lemma below_overflow:
  assumes "v \<le> of_nat N" and "N < 2 ^ 53"
  shows "\<not> (2::rat) ^ 1024 \<le> v"
proof -
  have N: "(of_nat N :: rat) < 2 ^ 53" using assms(2) by simp
  have "(2::rat) ^ 53 < 2 ^ 1024" by simp
  with N have "(of_nat N :: rat) < 2 ^ 1024" by (rule less_trans)
  with assms(1) have "v < 2 ^ 1024" by (rule order_le_less_trans)
  then show ?thesis by simp
qed

lemma round_double_bounded:
  assumes "0 < a" and "a \<le> of_nat N" and "N < 2 ^ 53"
  shows "\<exists>v. round_double a = Finite v \<and> 0 \<le> v \<and> v \<le> of_nat N"
proof -
  define e where "e = max (floor_log2 a - 52) (- 1074)"
  define m where "m = round_half_even (a / 2 powi e)"
  define v where "v = of_int m * (2::rat) powi e"
  have pos: "(0::rat) < 2 powi e"
    and Nint: "of_nat N / (2::rat) powi e = of_int (int N * 2 ^ nat (- e))"
    unfolding e_def by (rule rounding_unit [OF assms])+
  have "a / 2 powi e \<le> of_nat N / 2 powi e"
    using assms(2) pos by (simp add: divide_right_mono)
  then have "a / 2 powi e \<le> of_int (int N * 2 ^ nat (- e))" by (simp only: Nint)
  then have m_le: "m \<le> int N * 2 ^ nat (- e)" unfolding m_def by (rule round_half_even_le)
  have "0 \<le> a / 2 powi e" using assms(1) pos by simp
  then have m0: "0 \<le> m" unfolding m_def by (rule round_half_even_nonneg)
  have v0: "0 \<le> v" using m0 pos by (simp add: v_def)
  have "(of_int m :: rat) \<le> of_int (int N * 2 ^ nat (- e))"
    using m_le by (simp only: of_int_le_iff)
  then have "v \<le> of_int (int N * 2 ^ nat (- e)) * 2 powi e"
    unfolding v_def using pos by (intro mult_right_mono) simp_all
  also have "\<dots> = of_nat N / 2 powi e * 2 powi e" by (simp only: Nint)
  also have "\<dots> = of_nat N" using pos by simp
  finally have vN: "v \<le> of_nat N" .
  have "\<not> 2 ^ 1024 \<le> v" using vN assms(3) by (rule below_overflow)
  moreover have "round_double a = (if 2 ^ 1024 \<le> v then PosInf else Finite v)"
    unfolding round_double_unfold [OF assms(1)] by (simp add: Let_def e_def m_def v_def)
  ultimately have "round_double a = Finite v" by simp
  with v0 vN show ?thesis by blast
qed

lemma round_double_of_nat:
  assumes "N < 2 ^ 53"
  shows "round_double (of_nat N) = Finite (of_nat N)"
proof (cases "N = 0")
  case True
  then show ?thesis by (simp add: round_double_def)
next
  case False
  then have a: "(0::rat) < of_nat N" by simp
  have le: "(of_nat N :: rat) \<le> of_nat N" by simp
  define e where "e = max (floor_log2 (of_nat N) - 52) (- 1074)"
  define v where "v = of_int (round_half_even (of_nat N / 2 powi e)) * (2::rat) powi e"
  have pos: "(0::rat) < 2 powi e"
    and Nint: "of_nat N / (2::rat) powi e = of_int (int N * 2 ^ nat (- e))"
    unfolding e_def by (rule rounding_unit [OF a le assms])+
  have "v = of_nat N / 2 powi e * 2 powi e"
    unfolding v_def by (simp only: Nint round_half_even_of_int)
  also have "\<dots> = of_nat N" using pos by simp
  finally have v: "v = of_nat N" .
  then have "v \<le> of_nat N" by simp
  then have "\<not> 2 ^ 1024 \<le> v" using assms by (rule below_overflow)
  moreover have "round_double (of_nat N) = (if 2 ^ 1024 \<le> v then PosInf else Finite v)"
    unfolding round_double_unfold [OF a] by (simp add: Let_def e_def v_def)
  ultimately show ?thesis using v by simp
qed

lemma split_index_of_finite:
  assumes "N < 2 ^ 53"
  shows "split_index_of (Finite r) N =
           (case round_double (of_nat N * r) of
              Finite v \<Rightarrow> Inr \<lfloor>v\<rfloor>
            | PosInf \<Rightarrow> Inl OverflowError
            | NegInf \<Rightarrow> Inl OverflowError
            | NaN \<Rightarrow> Inl ValueError)"
proof -
  have "round_double (of_int (int N)) = Finite (of_nat N)"
    using round_double_of_nat [OF assms] by simp
  then show ?thesis
    by (simp add: split_index_of_def float_of_int_def math_floor_def)
qed

lemma slices_append: "slice_to k xs @ slice_from k xs = xs"
  by (simp add: slice_to_def slice_from_def)

lemma split_batch_partition:
  "split_batch split xs = Inr (tr, te) \<Longrightarrow> tr @ te = xs"
  by (auto simp: split_batch_def slices_append split: sum.splits)

text \<open>
  Claim C6. The claim gives the number of new training examples as floor(N * r). Line
  39 floors the product as rounded to a double. With the double nearest to 0.6 as the
  ratio, five examples are cut after the third, where the exact product 2.99... has
  floor 2; with the double nearest to 0.58, fifty examples are cut after the 28th,
  where 50 * 0.58 is 29.
\<close>

theorem split_batch_floors_rounded_product:
  "round_double (6 / 10) = Finite (5404319552844595 / 2 ^ 53)
   \<and> split_batch (Finite (5404319552844595 / 2 ^ 53)) [[1], [2], [3], [4], [5 :: byte]]
       = Inr ([[1], [2], [3]], [[4], [5]])
   \<and> \<lfloor>5 * (5404319552844595 / 2 ^ 53 :: rat)\<rfloor> = 2
   \<and> round_double (58 / 100) = Finite (5224175567749775 / 2 ^ 53)
   \<and> split_batch (Finite (5224175567749775 / 2 ^ 53)) (replicate 50 [0 :: byte])
       = Inr (replicate 28 [0], replicate 22 [0])
   \<and> \<lfloor>50 * (58 / 100 :: rat)\<rfloor> = 29"
proof (intro conjI)
  show "round_double (6 / 10) = Finite (5404319552844595 / 2 ^ 53)"
    by code_simp
  have lt5: "(5::nat) < 2 ^ 53" and lt50: "(50::nat) < 2 ^ 53" by simp_all
  have p5: "round_double (of_nat 5 * (5404319552844595 / 2 ^ 53)) = Finite 3"
    by code_simp
  have i5: "split_index_of (Finite (5404319552844595 / 2 ^ 53)) 5 = Inr 3"
    by (simp only: split_index_of_finite [OF lt5] p5) simp
  have l5: "length [[1], [2], [3], [4], [5 :: byte]] = 5" by simp
  show "split_batch (Finite (5404319552844595 / 2 ^ 53)) [[1], [2], [3], [4], [5 :: byte]]
       = Inr ([[1], [2], [3]], [[4], [5]])"
    by (simp only: split_batch_def l5 i5) (simp add: slice_to_def slice_from_def)
  show "\<lfloor>5 * (5404319552844595 / 2 ^ 53 :: rat)\<rfloor> = 2"
    by code_simp
  show "round_double (58 / 100) = Finite (5224175567749775 / 2 ^ 53)"
    by code_simp
  have p50: "round_double (of_nat 50 * (5224175567749775 / 2 ^ 53))
      = Finite (8162774324609023 / 2 ^ 48)"
    by code_simp
  have f50: "\<lfloor>8162774324609023 / 2 ^ 48 :: rat\<rfloor> = 28"
    by code_simp
  have "split_index_of (Finite (5224175567749775 / 2 ^ 53)) 50 = Inr 28"
    by (simp only: split_index_of_finite [OF lt50] p50 pyfloat.case f50)
  then show "split_batch (Finite (5224175567749775 / 2 ^ 53)) (replicate 50 [0 :: byte])
       = Inr (replicate 28 [0], replicate 22 [0])"
    by (simp add: split_batch_def slice_to_def slice_from_def)
  show "\<lfloor>50 * (58 / 100 :: rat)\<rfloor> = 29"
    by code_simp
qed

text \<open>
  Claim C6, amended. For a ratio r strictly between 0 and 1 and a batch of N examples,
  N below 2^53, line 39 does not raise and gives the index k = floor(fl(N * r)), where
  fl rounds the exact product to the nearest double; k is at most N, the first k
  examples of the shuffled batch are the new training examples and the other N - k
  the new test examples. Whatever the ratio and the size, when the cut returns the
  two parts together are the shuffled batch, which is a rearrangement of the batch.
  The cut takes the new batch alone: appended to a store, the parts add exactly
  these numbers to what the store held for the category.
\<close>

theorem split_batch_sizes:
  assumes "0 < r" and "r < 1" and "length data < 2 ^ 53"
  shows "\<exists>v k tr te.
           round_double (of_nat (length data) * r) = Finite v
         \<and> int k = \<lfloor>v\<rfloor>
         \<and> k \<le> length data
         \<and> split_index_of (Finite r) (length data) = Inr (int k)
         \<and> split_batch (Finite r) (shuffle rnd data) = Inr (tr, te)
         \<and> tr = take k (shuffle rnd data) \<and> te = drop k (shuffle rnd data)
         \<and> length tr = k
         \<and> length te = length data - k
         \<and> mset tr + mset te = mset (shuffle rnd data)
         \<and> mset (shuffle rnd data) = mset data
         \<and> (\<forall>split xs tr' te'. split_batch split xs = Inr (tr', te') \<longrightarrow> tr' @ te' = xs)
         \<and> length (ds_get (fst (extend_category category train test tr te)) category)
             = length (ds_get train category) + k
         \<and> length (ds_get (snd (extend_category category train test tr te)) category)
             = length (ds_get test category) + (length data - k)"
proof -
  let ?N = "length data"
  let ?s = "shuffle rnd data"
  have len: "length ?s = ?N" by (rule length_shuffle)
  have "\<exists>v. round_double (of_nat ?N * r) = Finite v \<and> 0 \<le> v \<and> v \<le> of_nat ?N"
  proof (cases "?N = 0")
    case True
    then show ?thesis by (simp add: round_double_def)
  next
    case False
    then have N: "(0::rat) < of_nat ?N" by simp
    have pos: "0 < of_nat ?N * r" using N assms(1) by simp
    have "of_nat ?N * r \<le> of_nat ?N * 1"
      using N assms(2) by (intro mult_left_mono) simp_all
    then have le: "of_nat ?N * r \<le> of_nat ?N" by simp
    show ?thesis by (rule round_double_bounded [OF pos le assms(3)])
  qed
  then obtain v where v: "round_double (of_nat ?N * r) = Finite v"
    and v0: "0 \<le> v" and vN: "v \<le> of_nat ?N" by blast
  define k where "k = nat \<lfloor>v\<rfloor>"
  have f0: "0 \<le> \<lfloor>v\<rfloor>" using v0 by simp
  then have ik: "int k = \<lfloor>v\<rfloor>" by (simp add: k_def)
  have "\<lfloor>v\<rfloor> \<le> int ?N" using vN by (simp add: floor_le_iff)
  then have kN: "k \<le> ?N" using ik by linarith
  have idx: "split_index_of (Finite r) ?N = Inr (int k)"
    by (simp add: split_index_of_finite [OF assms(3)] v ik)
  have sb: "split_batch (Finite r) ?s = Inr (take k ?s, drop k ?s)"
    by (simp add: split_batch_def len idx slice_to_def slice_from_def)
  have l1: "length (take k ?s) = k" using kN len by simp
  have l2: "length (drop k ?s) = ?N - k" using len by simp
  have ms: "mset (take k ?s) + mset (drop k ?s) = mset ?s"
    by (simp flip: mset_append)
  have part: "\<forall>split xs tr' te'. split_batch split xs = Inr (tr', te') \<longrightarrow> tr' @ te' = xs"
    by (blast intro: split_batch_partition)
  have e1: "length (ds_get (fst (extend_category category train test (take k ?s) (drop k ?s))) category)
             = length (ds_get train category) + k"
    using l1 by (simp add: extend_category_def Let_def ds_get_ds_set)
  have e2: "length (ds_get (snd (extend_category category train test (take k ?s) (drop k ?s))) category)
             = length (ds_get test category) + (?N - k)"
    using l2 by (simp add: extend_category_def Let_def ds_get_ds_set)
  from v ik kN idx sb l1 l2 ms mset_shuffle [of rnd data] part e1 e2
  show ?thesis by blast
qed

theorem split_batch_sizes_witness:
  "(0::rat) < 1 / 2 \<and> (1::rat) / 2 < 1 \<and> length [[1], [2], [3 :: byte]] < 2 ^ 53
   \<and> split_batch (Finite (1 / 2)) (shuffle (\<lambda>i. 0) [[1], [2], [3 :: byte]]) = Inr ([[2]], [[3], [1]])
   \<and> (\<exists>v k. round_double (of_nat (length [[1], [2], [3 :: byte]]) * (1 / 2)) = Finite v
          \<and> int k = \<lfloor>v\<rfloor>
          \<and> split_index_of (Finite (1 / 2)) (length [[1], [2], [3 :: byte]]) = Inr (int k)
          \<and> length (take k (shuffle (\<lambda>i. 0) [[1], [2], [3 :: byte]])) = k)"
proof -
  have a: "(0::rat) < 1 / 2" and b: "(1::rat) / 2 < 1" by simp_all
  have c: "length [[1], [2], [3 :: byte]] < 2 ^ 53" by simp
  have sh: "shuffle (\<lambda>i. 0) [[1], [2], [3 :: byte]] = [[2], [3], [1]]"
    by (simp add: shuffle_def numeral_2_eq_2 Let_def)
  have lt3: "(3::nat) < 2 ^ 53" by simp
  have p: "round_double (of_nat 3 * (1 / 2)) = Finite (3 / 2)"
    by code_simp
  have f: "\<lfloor>3 / 2 :: rat\<rfloor> = 1"
    by code_simp
  have i3: "split_index_of (Finite (1 / 2)) 3 = Inr 1"
    by (simp only: split_index_of_finite [OF lt3] p pyfloat.case f)
  have l3: "length [[2], [3], [1 :: byte]] = 3" by simp
  have d: "split_batch (Finite (1 / 2)) (shuffle (\<lambda>i. 0) [[1], [2], [3 :: byte]])
      = Inr ([[2]], [[3], [1]])"
    by (simp only: sh split_batch_def l3 i3) (simp add: slice_to_def slice_from_def)
  from split_batch_sizes [OF a b c, of "\<lambda>i. 0" 0 "BinaryDs_init None" "BinaryDs_init None"]
  have "\<exists>v k. round_double (of_nat (length [[1], [2], [3 :: byte]]) * (1 / 2)) = Finite v
          \<and> int k = \<lfloor>v\<rfloor>
          \<and> split_index_of (Finite (1 / 2)) (length [[1], [2], [3 :: byte]]) = Inr (int k)
          \<and> length (take k (shuffle (\<lambda>i. 0) [[1], [2], [3 :: byte]])) = k"
    by blast
  with a b c d show ?thesis by blast
qed

text \<open>
  Claim C8. After the append step each store holds, for the category, what get
  returned before followed by the new examples of the run; the other categories
  are as they were.
\<close>

theorem extend_category_appends:
  assumes "extend_category category train test new_train_data new_test_data = (train', test')"
  shows "ds_get train' category = ds_get train category @ new_train_data
       \<and> ds_get test' category = ds_get test category @ new_test_data
       \<and> (\<forall>c. c \<noteq> category \<longrightarrow>
              ds_get train' c = ds_get train c \<and> ds_get test' c = ds_get test c)"
  using assms by (auto simp: extend_category_def Let_def ds_get_ds_set)

theorem extend_category_appends_witness:
  "extend_category 1
      (ds_set (ds_set (BinaryDs_init None) 0 [[9]]) 1 [[1], [2]])
      (ds_set (BinaryDs_init None) 1 [[3]]) [[4], [5]] [[6]]
     = (ds_set (ds_set (ds_set (BinaryDs_init None) 0 [[9]]) 1 [[1], [2]]) 1 [[1], [2], [4], [5]],
        ds_set (ds_set (BinaryDs_init None) 1 [[3]]) 1 [[3], [6]])
   \<and> ds_get (ds_set (ds_set (ds_set (BinaryDs_init None) 0 [[9]]) 1 [[1], [2]]) 1 [[1], [2], [4], [5]]) 1
       = [[1], [2], [4], [5]]
   \<and> ds_get (ds_set (ds_set (ds_set (BinaryDs_init None) 0 [[9]]) 1 [[1], [2]]) 1 [[1], [2], [4], [5]]) 0
       = [[9]]"
proof -
  have h: "extend_category 1
      (ds_set (ds_set (BinaryDs_init None) 0 [[9]]) 1 [[1], [2]])
      (ds_set (BinaryDs_init None) 1 [[3]]) [[4], [5]] [[6]]
     = (ds_set (ds_set (ds_set (BinaryDs_init None) 0 [[9]]) 1 [[1], [2]]) 1 [[1], [2], [4], [5]],
        ds_set (ds_set (BinaryDs_init None) 1 [[3]]) 1 [[3], [6]])"
    by (simp add: extend_category_def Let_def ds_get_ds_set)
  from extend_category_appends [OF h] h show ?thesis by (simp add: ds_get_ds_set)
qed

section \<open>Properties of rebalance\<close>

lemma target_count_le: "target_count r n \<le> n"
  by (simp add: target_count_def)

lemma rebalance_category_other:
  "c' \<noteq> c \<Longrightarrow>
   ds_get (fst (rebalance_category r c s)) c' = ds_get (fst s) c'
   \<and> ds_get (snd (rebalance_category r c s)) c' = ds_get (snd s) c'"
  by (cases s) (simp add: Let_def ds_get_ds_set)

lemma rebalance_category_same:
  "mset (ds_get (fst (rebalance_category r c s)) c) + mset (ds_get (snd (rebalance_category r c s)) c)
     = mset (ds_get (fst s) c) + mset (ds_get (snd s) c)
   \<and> length (ds_get (fst (rebalance_category r c s)) c)
     = target_count r (length (ds_get (fst s) c) + length (ds_get (snd s) c))"
proof (cases s)
  case (Pair this other)
  let ?a = "ds_get this c" and ?b = "ds_get other c"
  let ?k = "target_count r (length ?a + length ?b)"
  show ?thesis
  proof (cases "?k \<le> length ?a")
    case True
    have e: "mset (take ?k ?a) + mset (drop ?k ?a) = mset ?a"
      by (simp flip: mset_append)
    have "mset (take ?k ?a) + (mset ?b + mset (drop ?k ?a)) = mset ?a + mset ?b"
      by (subst e [symmetric]) (simp add: ac_simps)
    with True Pair show ?thesis by (simp add: Let_def ds_get_ds_set)
  next
    case False
    let ?m = "length ?b - (?k - length ?a)"
    have k: "?k \<le> length ?a + length ?b" by (rule target_count_le)
    have e: "mset (take ?m ?b) + mset (drop ?m ?b) = mset ?b"
      by (simp flip: mset_append)
    have "mset ?a + mset (drop ?m ?b) + mset (take ?m ?b) = mset ?a + mset ?b"
      by (subst e [symmetric]) (simp add: ac_simps)
    moreover have "length ?a + (length ?b - ?m) = ?k" using False k by linarith
    ultimately show ?thesis using False Pair by (simp add: Let_def ds_get_ds_set)
  qed
qed

lemma fold_rebalance_absent:
  "c \<notin> set cs \<Longrightarrow>
   ds_get (fst (fold (rebalance_category r) cs s)) c = ds_get (fst s) c
   \<and> ds_get (snd (fold (rebalance_category r) cs s)) c = ds_get (snd s) c"
proof (induction cs arbitrary: s)
  case Nil
  then show ?case by simp
next
  case (Cons x cs)
  then have "c \<noteq> x" and "c \<notin> set cs" by auto
  with Cons.IH [of "rebalance_category r x s"] rebalance_category_other [of c x r s]
  show ?case by simp
qed

lemma fold_rebalance_present:
  "distinct cs \<Longrightarrow> c \<in> set cs \<Longrightarrow>
   mset (ds_get (fst (fold (rebalance_category r) cs s)) c)
     + mset (ds_get (snd (fold (rebalance_category r) cs s)) c)
     = mset (ds_get (fst s) c) + mset (ds_get (snd s) c)
   \<and> length (ds_get (fst (fold (rebalance_category r) cs s)) c)
     = target_count r (length (ds_get (fst s) c) + length (ds_get (snd s) c))"
proof (induction cs arbitrary: s)
  case Nil
  then show ?case by simp
next
  case (Cons x cs)
  show ?case
  proof (cases "c = x")
    case True
    with Cons.prems have "c \<notin> set cs" by simp
    from fold_rebalance_absent [OF this, of r "rebalance_category r x s"]
      rebalance_category_same [of r c s] True
    show ?thesis by simp
  next
    case False
    with Cons.prems have "distinct cs" and "c \<in> set cs" by auto
    from Cons.IH [OF this, of "rebalance_category r x s"]
      rebalance_category_other [OF False, of r s]
    show ?thesis by simp
  qed
qed

lemma ds_get_absent:
  "c \<notin> fst ` set (ds_categories ds) \<Longrightarrow> ds_get ds c = []"
  by (simp add: ds_get_def map_of_eq_None_iff [THEN iffD2])

lemma rebalance_result:
  "mset (ds_get (fst (rebalance r this other)) c) + mset (ds_get (snd (rebalance r this other)) c)
     = mset (ds_get this c) + mset (ds_get other c)
   \<and> length (ds_get (fst (rebalance r this other)) c)
     = target_count r (length (ds_get this c) + length (ds_get other c))"
proof -
  let ?cs = "remdups (map fst (ds_categories this) @ map fst (ds_categories other))"
  show ?thesis
  proof (cases "c \<in> set ?cs")
    case True
    from fold_rebalance_present [OF distinct_remdups True, of r "(this, other)"]
    show ?thesis by (simp add: rebalance_def)
  next
    case False
    then have "ds_get this c = []" and "ds_get other c = []"
      by (auto intro: ds_get_absent)
    with fold_rebalance_absent [OF False, of r "(this, other)"]
    show ?thesis by (simp add: rebalance_def target_count_def)
  qed
qed

lemma target_count_nearest:
  assumes "0 \<le> r" "r \<le> 1"
  shows "\<bar>real (target_count r n) - r * real n\<bar> \<le> 1 / 2"
    and "\<bar>real (target_count r n) - r * real n\<bar> \<le> \<bar>real k - r * real n\<bar>"
proof -
  let ?x = "r * real n"
  let ?f = "\<lfloor>?x + 1 / 2\<rfloor>"
  have x0: "0 \<le> ?x" using assms by simp
  have xn: "?x \<le> real n" using assms by (simp add: mult_left_le_one_le)
  have f0: "0 \<le> ?f" using x0 by simp
  have "?x + 1 / 2 < real n + 1" using xn by simp
  then have "?f \<le> int n" by (simp add: floor_le_iff)
  then have fn: "nat ?f \<le> n" using f0 by simp
  then have tc: "real (target_count r n) = of_int ?f"
    using f0 by (simp add: target_count_def min_absorb2)
  have lo: "of_int ?f \<le> ?x + 1 / 2" by (rule of_int_floor_le)
  have hi: "?x + 1 / 2 < of_int ?f + 1" by (rule real_of_int_floor_add_one_gt)
  show "\<bar>real (target_count r n) - ?x\<bar> \<le> 1 / 2"
    using tc lo hi by linarith
  show "\<bar>real (target_count r n) - ?x\<bar> \<le> \<bar>real k - ?x\<bar>"
  proof -
    consider "int k = ?f" | "int k \<ge> ?f + 1" | "int k \<le> ?f - 1" by linarith
    then show ?thesis
    proof cases
      case 1
      have "real k = real_of_int (int k)" by simp
      also have "\<dots> = real_of_int ?f" by (simp only: 1)
      finally show ?thesis using tc by simp
    next
      case 2
      then have "(of_int (?f + 1) :: real) \<le> of_int (int k)" by (simp only: of_int_le_iff)
      then have "real k \<ge> of_int ?f + 1" by simp
      with tc lo hi show ?thesis by linarith
    next
      case 3
      then have "(of_int (int k) :: real) \<le> of_int (?f - 1)" by (simp only: of_int_le_iff)
      then have "real k \<le> of_int ?f - 1" by simp
      with tc lo hi show ?thesis by linarith
    qed
  qed
qed

text \<open>
  Claim C10. With the rebalancing modelled from the specification and a target ratio
  between 0 and 1: for every category, the examples of the two stores after rebalance
  are together the examples they held before, none duplicated and none dropped, so the
  total count is unchanged; and the number left in the first store is within one
  example (indeed within half an example) of the target share of the total, no other
  number of examples being nearer to it. As a ratio: the train ratio differs from the
  target by at most one example's worth, 1 / total.
\<close>

theorem rebalance_preserves_and_balances:
  assumes "0 \<le> r" and "r \<le> 1"
    and "rebalance r this other = (this', other')"
  shows "mset (ds_get this' c) + mset (ds_get other' c)
           = mset (ds_get this c) + mset (ds_get other c)
       \<and> length (ds_get this' c) + length (ds_get other' c)
           = length (ds_get this c) + length (ds_get other c)
       \<and> \<bar>real (length (ds_get this' c))
            - r * real (length (ds_get this c) + length (ds_get other c))\<bar> \<le> 1
       \<and> (\<forall>k. \<bar>real (length (ds_get this' c))
                 - r * real (length (ds_get this c) + length (ds_get other c))\<bar>
               \<le> \<bar>real k - r * real (length (ds_get this c) + length (ds_get other c))\<bar>)
       \<and> (0 < length (ds_get this c) + length (ds_get other c) \<longrightarrow>
            \<bar>real (length (ds_get this' c))
               / real (length (ds_get this c) + length (ds_get other c)) - r\<bar>
              \<le> 1 / real (length (ds_get this c) + length (ds_get other c)))"
proof -
  let ?n = "length (ds_get this c) + length (ds_get other c)"
  let ?l = "length (ds_get this' c)"
  from rebalance_result [of r this other c] assms(3)
  have ms: "mset (ds_get this' c) + mset (ds_get other' c)
           = mset (ds_get this c) + mset (ds_get other c)"
    and len: "?l = target_count r ?n" by simp_all
  have "size (mset (ds_get this' c) + mset (ds_get other' c))
      = size (mset (ds_get this c) + mset (ds_get other c))"
    by (simp only: ms)
  then have total: "length (ds_get this' c) + length (ds_get other' c) = ?n" by simp
  have half: "\<bar>real ?l - r * real ?n\<bar> \<le> 1 / 2"
    unfolding len by (rule target_count_nearest(1) [OF assms(1,2)])
  then have one: "\<bar>real ?l - r * real ?n\<bar> \<le> 1" by linarith
  have best: "\<forall>k. \<bar>real ?l - r * real ?n\<bar> \<le> \<bar>real k - r * real ?n\<bar>"
    unfolding len using target_count_nearest(2) [OF assms(1,2)] by blast
  have ratio: "\<bar>real ?l / real ?n - r\<bar> \<le> 1 / real ?n" if pos: "0 < ?n"
  proof -
    have n: "0 < real ?n" using pos by (simp only: of_nat_0_less_iff)
    have "real ?l / real ?n - r = (real ?l - r * real ?n) / real ?n"
      using n by (simp add: diff_divide_distrib)
    then have "\<bar>real ?l / real ?n - r\<bar> = \<bar>real ?l - r * real ?n\<bar> / real ?n"
      using n by (simp only: abs_divide)
    also have "\<dots> \<le> 1 / real ?n"
      using one n by (simp only: divide_right_mono less_imp_le)
    finally show ?thesis .
  qed
  from ms total one best ratio show ?thesis by blast
qed

theorem rebalance_preserves_and_balances_witness:
  "(0::real) \<le> 1 / 2 \<and> (1::real) / 2 \<le> 1
   \<and> rebalance (1 / 2) (ds_set (BinaryDs_init None) 0 [[1], [2], [3], [4]]) (BinaryDs_init None)
       = (ds_set (ds_set (BinaryDs_init None) 0 [[1], [2], [3], [4]]) 0 [[1], [2]],
          ds_set (BinaryDs_init None) 0 [[3], [4]])
   \<and> mset (ds_get (ds_set (ds_set (BinaryDs_init None) 0 [[1], [2], [3], [4]]) 0 [[1], [2]]) 0)
       + mset (ds_get (ds_set (BinaryDs_init None) 0 [[3], [4]]) 0)
       = mset (ds_get (ds_set (BinaryDs_init None) 0 [[1], [2], [3], [4]]) 0)
         + mset (ds_get (BinaryDs_init None) 0)"
proof -
  have a: "(0::real) \<le> 1 / 2" and b: "(1::real) / 2 \<le> 1" by simp_all
  have tc: "target_count (1 / 2) (Suc (Suc (Suc (Suc 0)))) = 2"
    by (simp add: target_count_def)
  have c: "rebalance (1 / 2) (ds_set (BinaryDs_init None) 0 [[1], [2], [3], [4]]) (BinaryDs_init None)
       = (ds_set (ds_set (BinaryDs_init None) 0 [[1], [2], [3], [4]]) 0 [[1], [2]],
          ds_set (BinaryDs_init None) 0 [[3], [4]])"
    by (simp add: rebalance_def BinaryDs_init_def ds_set_def ds_get_def Let_def tc)
  from rebalance_preserves_and_balances [OF a b c, of 0] a b c show ?thesis by blast
qed

end
